theory Spec2Isabelle
  imports Complex_Main "HOL-Library.Sublist"
begin

section \<open>Python values and exceptions\<close>

text \<open>
  Exceptions of the Python sources are values of \<open>py_error\<close>; a function that may raise
  returns \<open>py_error + 'a\<close> with \<open>Inl\<close> for the raised exception.  \<open>IOError\<close> is the one
  raised by \<open>get_frames\<close> itself; \<open>LibraryError\<close> stands for any failure inside an
  external routine that the sources call; \<open>NameError\<close> for a reference to no object.
\<close>

datatype py_error = IOError | IndexError | ValueError | NameError | LibraryError

text \<open>Sequencing of steps that may raise: the first exception ends the computation.\<close>

definition bnd :: "py_error + 'a \<Rightarrow> ('a \<Rightarrow> py_error + 'b) \<Rightarrow> py_error + 'b" where
  "bnd m f = (case m of Inl e \<Rightarrow> Inl e | Inr x \<Rightarrow> f x)"

text \<open>
  \<open>np.asarray(xs)[idx]\<close> with a list of integers: every index must lie in
  \<open>[-len, len)\<close>, negative ones count from the end, anything else raises IndexError.
\<close>

definition np_index :: "nat \<Rightarrow> int \<Rightarrow> py_error + nat" where
  "np_index n i =
     (let j = (if i < 0 then int n + i else i)
      in if 0 \<le> j \<and> j < int n then Inr (nat j) else Inl IndexError)"

fun np_take :: "'a list \<Rightarrow> int list \<Rightarrow> py_error + 'a list" where
  "np_take xs [] = Inr []"
| "np_take xs (i # is) =
     (case np_index (length xs) i of
        Inl e \<Rightarrow> Inl e
      | Inr j \<Rightarrow> (case np_take xs is of Inl e \<Rightarrow> Inl e | Inr ys \<Rightarrow> Inr (xs ! j # ys)))"

section \<open>cells\_kitchen/region\_proposal/utils.py: get\_frames\<close>

text \<open>
  \<open>np.linspace(start, stop, num)\<close> with the default \<open>endpoint=True\<close>, following numpy's
  own steps: \<open>arange(num)\<close> is scaled by \<open>step = delta / (num - 1)\<close> (by \<open>delta\<close> when
  \<open>num \<le> 1\<close>), shifted by \<open>start\<close>, and the last entry is overwritten by \<open>stop\<close> when
  \<open>num > 1\<close>.  Arithmetic is over the reals: the rounding of binary floating point is not
  part of this model.
\<close>

definition linspace :: "real \<Rightarrow> real \<Rightarrow> nat \<Rightarrow> real list" where
  "linspace start stop num =
     (let dv = real num - 1;
          y = map real [0..<num];
          delta = stop - start;
          y = (if num > 1 then (let step = delta / dv in map (\<lambda>v. v * step) y)
               else map (\<lambda>v. v * delta) y);
          y = map (\<lambda>v. v + start) y
      in if num > 1 then y[num - 1 := stop] else y)"

text \<open>
  Lines 46-48: \<open>np.floor(np.linspace(0, len(files) - 1, frame_numbers)).astype(np.int)\<close>,
  for \<open>k = len(files)\<close> and \<open>n = frame_numbers\<close>.
\<close>

definition frame_indices :: "nat \<Rightarrow> nat \<Rightarrow> int list" where
  "frame_indices k n = map floor (linspace 0 (real k - 1) n)"

text \<open>
  The three shapes of the \<open>frame_numbers\<close> argument: \<open>None\<close>, a list of integers
  (anything with \<open>__len__\<close>), or a single integer.
\<close>

datatype frame_numbers = AllFrames | FrameList "int list" | FrameCount int

text \<open>
  \<open>get_frames\<close>.  \<open>files\<close> is the list returned by
  \<open>glob.glob(os.path.join(folder, '*.tif'))\<close>; \<open>imread\<close> is \<open>tifffile.imread\<close>, an external
  reader that either yields an image stack or fails.  A negative count makes
  \<open>np.linspace\<close> raise ValueError.
\<close>

definition get_frames ::
  "(string list \<Rightarrow> 'a option) \<Rightarrow> string list \<Rightarrow> frame_numbers \<Rightarrow> py_error + 'a" where
  "get_frames imread files fn =
     (if length files = 0 then Inl IOError
      else
        (case (case fn of
                 AllFrames \<Rightarrow> Inr files
               | FrameList ns \<Rightarrow> np_take files ns
               | FrameCount n \<Rightarrow>
                   (if n < 0 then Inl ValueError
                    else np_take files (frame_indices (length files) (nat n))))
         of Inl e \<Rightarrow> Inl e
          | Inr load_files \<Rightarrow>
              (case imread load_files of
                 None \<Rightarrow> Inl LibraryError
               | Some imgs \<Rightarrow> Inr imgs)))"

text \<open>A reader that succeeds on every list of files and returns their names.\<close>

definition read_names :: "string list \<Rightarrow> string list option" where
  "read_names fs = Some fs"

text \<open>The requests that \<open>get_frames\<close> can serve from \<open>k\<close> files without an index error.\<close>

fun request_in_range :: "nat \<Rightarrow> frame_numbers \<Rightarrow> bool" where
  "request_in_range k AllFrames = True"
| "request_in_range k (FrameList ns) = list_all (\<lambda>i. - int k \<le> i \<and> i < int k) ns"
| "request_in_range k (FrameCount n) = (0 \<le> n)"

section \<open>cells\_kitchen/region\_proposal/utils.py: get\_targets\<close>




























section \<open>cells\_kitchen/region\_proposal/utils.py: enhance\_contrast\<close>



text \<open>
  \<open>np.percentile(a, q)\<close> for a flat array and a sequence of percentiles, with the default
  linear interpolation: every \<open>q\<close> must lie in \<open>[0, 100]\<close> (ValueError otherwise); the
  result for \<open>q\<close> sits at the fractional position \<open>q / 100 * (N - 1)\<close> of the sorted data.
  What numpy does with an empty array differs between releases; here it is an error.
\<close>

definition percentile_of_sorted :: "real list \<Rightarrow> real \<Rightarrow> real" where
  "percentile_of_sorted ap q =
     (let Nx = length ap;
          indices = q / 100 * (real Nx - 1);
          indices_below = nat \<lfloor>indices\<rfloor>;
          indices_above = (if indices_below + 1 > Nx - 1 then Nx - 1 else indices_below + 1);
          weights_above = indices - real indices_below;
          weights_below = 1 - weights_above
      in ap ! indices_below * weights_below + ap ! indices_above * weights_above)"

definition np_percentile :: "real list \<Rightarrow> real list \<Rightarrow> py_error + real list" where
  "np_percentile a q =
     (if list_ex (\<lambda>p. p < 0 \<or> 100 < p) q then Inl ValueError
      else if a = [] then Inl IndexError
      else Inr (map (percentile_of_sorted (sort a)) q))"





section \<open>cells\_kitchen/region\_proposal/utils.py: get\_correlation\_image\<close>

text \<open>
  Arrays are objects: a variable holds a reference, and \<open>-=\<close>, \<open>/=\<close> and an indexed
  assignment change the object the variable refers to.  The store is the list of all
  array objects, a reference is a position in it, and a new array is appended at the end.
  A statement takes the store and returns its result (or the exception it raises) with
  the new store.
\<close>

type_synonym addr = nat
type_synonym 'a store = "'a list"
type_synonym ('a, 'r) stmt = "'a store \<Rightarrow> (py_error + 'r) \<times> 'a store"

definition sreturn :: "'r \<Rightarrow> ('a, 'r) stmt" where
  "sreturn x \<sigma> = (Inr x, \<sigma>)"

definition sbind :: "('a, 'r) stmt \<Rightarrow> ('r \<Rightarrow> ('a, 'q) stmt) \<Rightarrow> ('a, 'q) stmt" where
  "sbind m f \<sigma> = (case m \<sigma> of (Inl e, \<sigma>') \<Rightarrow> (Inl e, \<sigma>') | (Inr x, \<sigma>') \<Rightarrow> f x \<sigma>')"

text \<open>
  \<open>new e\<close> evaluates an expression that builds a new array and returns the reference
  to it; \<open>inplace a e\<close> overwrites the contents of the array at \<open>a\<close>.  An expression
  that yields \<open>None\<close> stands for a library call that raises.  \<open>copy_array a\<close> is
  \<open>a.copy()\<close>.
\<close>

definition new :: "('a store \<Rightarrow> 'a option) \<Rightarrow> ('a, addr) stmt" where
  "new e \<sigma> = (case e \<sigma> of None \<Rightarrow> (Inl LibraryError, \<sigma>) | Some v \<Rightarrow> (Inr (length \<sigma>), \<sigma> @ [v]))"

definition inplace :: "addr \<Rightarrow> ('a store \<Rightarrow> 'a option) \<Rightarrow> ('a, unit) stmt" where
  "inplace a e \<sigma> =
     (if a < length \<sigma>
      then (case e \<sigma> of None \<Rightarrow> (Inl LibraryError, \<sigma>) | Some v \<Rightarrow> (Inr (), \<sigma>[a := v]))
      else (Inl NameError, \<sigma>))"

definition copy_array :: "addr \<Rightarrow> ('a, addr) stmt" where
  "copy_array a \<sigma> =
     (if a < length \<sigma> then (Inr (length \<sigma>), \<sigma> @ [\<sigma> ! a]) else (Inl NameError, \<sigma>))"

text \<open>
  The numpy and scipy routines that \<open>get_correlation_image\<close> calls, as functions on
  array values; each may fail.  \<open>np_shape\<close> is the \<open>shape\<close> attribute, \<open>np_setitem\<close> an
  assignment to one entry, \<open>np_zero_to_inf\<close> the masked assignment
  \<open>x[x == 0] = np.inf\<close>, and \<open>np_newaxis\<close> the index \<open>[np.newaxis, :]\<close>.
\<close>

record 'a array_lib =
  np_ones :: "nat list \<Rightarrow> 'a option"
  np_shape :: "'a \<Rightarrow> nat list"
  np_setitem :: "'a \<Rightarrow> nat list \<Rightarrow> real \<Rightarrow> 'a option"
  np_mean_axis0 :: "'a \<Rightarrow> 'a option"
  np_std_axis0 :: "'a \<Rightarrow> 'a option"
  np_subtract :: "'a \<Rightarrow> 'a \<Rightarrow> 'a option"
  np_true_divide :: "'a \<Rightarrow> 'a \<Rightarrow> 'a option"
  np_multiply :: "'a \<Rightarrow> 'a \<Rightarrow> 'a option"
  np_zero_to_inf :: "'a \<Rightarrow> 'a option"
  np_newaxis :: "'a \<Rightarrow> 'a option"
  convolve :: "'a \<Rightarrow> 'a \<Rightarrow> 'a option"

text \<open>
  \<open>get_correlation_image\<close>: lines 80-104, one statement per line of the source.  The
  argument \<open>imgs\<close> is a reference; after the first statement the local name \<open>imgs\<close>
  refers to the copy.
\<close>

definition get_correlation_image :: "'a array_lib \<Rightarrow> addr \<Rightarrow> ('a, addr) stmt" where
  "get_correlation_image lib imgs =
     sbind (copy_array imgs) (\<lambda>imgs.
     sbind (new (\<lambda>\<sigma>. np_ones lib [3, 3])) (\<lambda>kernel.
     sbind (inplace kernel (\<lambda>\<sigma>. np_setitem lib (\<sigma> ! kernel) [1, 1] 0)) (\<lambda>_.
     sbind (new (\<lambda>\<sigma>. np_ones lib (tl (np_shape lib (\<sigma> ! imgs))))) (\<lambda>ones.
     sbind (new (\<lambda>\<sigma>. convolve lib (\<sigma> ! ones) (\<sigma> ! kernel))) (\<lambda>mask.
     sbind (new (\<lambda>\<sigma>. np_mean_axis0 lib (\<sigma> ! imgs))) (\<lambda>mean.
     sbind (inplace imgs (\<lambda>\<sigma>. np_subtract lib (\<sigma> ! imgs) (\<sigma> ! mean))) (\<lambda>_.
     sbind (new (\<lambda>\<sigma>. np_std_axis0 lib (\<sigma> ! imgs))) (\<lambda>imgs_std.
     sbind (inplace imgs_std (\<lambda>\<sigma>. np_zero_to_inf lib (\<sigma> ! imgs_std))) (\<lambda>_.
     sbind (inplace imgs (\<lambda>\<sigma>. np_true_divide lib (\<sigma> ! imgs) (\<sigma> ! imgs_std))) (\<lambda>_.
     sbind (new (\<lambda>\<sigma>. np_newaxis lib (\<sigma> ! kernel))) (\<lambda>kernel3.
     sbind (new (\<lambda>\<sigma>. convolve lib (\<sigma> ! imgs) (\<sigma> ! kernel3))) (\<lambda>conv.
     sbind (new (\<lambda>\<sigma>. np_true_divide lib (\<sigma> ! conv) (\<sigma> ! mask))) (\<lambda>img_corr.
     sbind (new (\<lambda>\<sigma>. np_multiply lib (\<sigma> ! imgs) (\<sigma> ! img_corr))) (\<lambda>img_corr.
     sbind (new (\<lambda>\<sigma>. np_mean_axis0 lib (\<sigma> ! img_corr))) (\<lambda>img_corr.
     sreturn img_corr)))))))))))))))"

text \<open>
  For the analysis: a statement keeps a store \<open>\<sigma>0\<close> when, started in any store that
  extends \<open>\<sigma>0\<close>, it ends in a store that extends \<open>\<sigma>0\<close>, with a result that satisfies
  \<open>Q\<close> if it does not raise.
\<close>

definition keeps :: "'a store \<Rightarrow> ('a, 'r) stmt \<Rightarrow> ('r \<Rightarrow> bool) \<Rightarrow> bool" where
  "keeps \<sigma>0 m Q =
     (\<forall>\<sigma>. prefix \<sigma>0 \<sigma> \<longrightarrow>
        prefix \<sigma>0 (snd (m \<sigma>)) \<and> (\<forall>x. fst (m \<sigma>) = Inr x \<longrightarrow> Q x))"

section \<open>whisker\_segmentation/models.py\<close>

text \<open>
  The model builders assemble Keras layers; what the claims need is the shape of every
  tensor in the graph.  A tensor is represented by its shape without the batch axis, each
  entry a known size or \<open>None\<close> (unknown until run time), as \<open>K.int_shape\<close> reports it.
  Each layer is its Keras shape rule (\<open>compute_output_shape\<close>); a layer that rejects its
  input raises ValueError while the graph is built.
\<close>

type_synonym dim = "nat option"
type_synonym shape = "dim list"


text \<open>
  \<open>conv_output_length\<close> for \<open>padding="same"\<close> and stride 2:
  \<open>(length + stride - 1) // stride\<close>; \<open>deconv_length\<close> for \<open>padding="same"\<close> and stride 2
  (also the rule of \<open>UpSampling2D\<close> with its default size 2): \<open>length * stride\<close>.
\<close>

fun conv_output_length :: "dim \<Rightarrow> dim" where
  "conv_output_length None = None"
| "conv_output_length (Some n) = Some ((n + 2 - 1) div 2)"

fun deconv_length :: "dim \<Rightarrow> dim" where
  "deconv_length None = None"
| "deconv_length (Some n) = Some (n * 2)"

text \<open>
  \<open>Conv2D(filters, padding="same")\<close> with stride 1 and \<open>Conv2DTranspose(filters, strides=2,
  padding="same")\<close> need a rank-4 input (rank 3 without the batch axis) whose channel
  axis is defined.  The number of filters is not validated.
\<close>

definition Conv2D :: "nat \<Rightarrow> shape \<Rightarrow> py_error + shape" where
  "Conv2D filters x =
     (if length x \<noteq> 3 then Inl ValueError
      else if x ! 2 = None then Inl ValueError
      else Inr [x ! 0, x ! 1, Some filters])"

definition Conv2DTranspose :: "nat \<Rightarrow> shape \<Rightarrow> py_error + shape" where
  "Conv2DTranspose filters x =
     (if length x \<noteq> 3 then Inl ValueError
      else if x ! 2 = None then Inl ValueError
      else Inr [deconv_length (x ! 0), deconv_length (x ! 1), Some filters])"

definition MaxPooling2D :: "shape \<Rightarrow> py_error + shape" where
  "MaxPooling2D x =
     (if length x \<noteq> 3 then Inl ValueError
      else Inr [conv_output_length (x ! 0), conv_output_length (x ! 1), x ! 2])"

definition UpSampling2D :: "shape \<Rightarrow> py_error + shape" where
  "UpSampling2D x =
     (if length x \<noteq> 3 then Inl ValueError
      else Inr [deconv_length (x ! 0), deconv_length (x ! 1), x ! 2])"

text \<open>
  \<open>Add\<close> (a Keras merge layer) combines its two input shapes axis by axis, aligned at
  the last axis: an unknown size gives unknown, a size 1 broadcasts to the other size, and
  two different sizes raise ValueError.
\<close>

fun broadcast_dim :: "dim \<Rightarrow> dim \<Rightarrow> py_error + dim" where
  "broadcast_dim None j = Inr None"
| "broadcast_dim (Some i) None = Inr None"
| "broadcast_dim (Some i) (Some j) =
     (if i = 1 then Inr (Some j)
      else if j = 1 then Inr (Some i)
      else if i \<noteq> j then Inl ValueError
      else Inr (Some i))"

fun broadcast_dims :: "shape \<Rightarrow> shape \<Rightarrow> py_error + shape" where
  "broadcast_dims (i # is) (j # js) =
     bnd (broadcast_dim i j) (\<lambda>d. bnd (broadcast_dims is js) (\<lambda>ds. Inr (d # ds)))"
| "broadcast_dims is js = Inr []"

definition compute_elemwise_op_output_shape :: "shape \<Rightarrow> shape \<Rightarrow> py_error + shape" where
  "compute_elemwise_op_output_shape shape1 shape2 =
     (let a = (if length shape1 < length shape2 then shape2 else shape1);
          b = (if length shape1 < length shape2 then shape1 else shape2)
      in bnd (broadcast_dims (drop (length a - length b) a) b)
           (\<lambda>ds. Inr (take (length a - length b) a @ ds)))"

definition Add :: "shape \<Rightarrow> shape \<Rightarrow> py_error + shape" where
  "Add x y = compute_elemwise_op_output_shape x y"



text \<open>
  \<open>residual_bottleneck_module\<close>: lines 45-65.  \<open>K.int_shape(x_in)[3]\<close> is the channel
  axis (index 2 without the batch axis) and raises IndexError on a tensor of lower rank.
\<close>

definition residual_bottleneck_module :: "shape \<Rightarrow> nat \<Rightarrow> nat \<Rightarrow> py_error + shape" where
  "residual_bottleneck_module x_in output_filters bottleneck_factor =
     (if length x_in < 3 then Inl IndexError
      else
        (let input_filters = x_in ! 2;
             bottleneck_filters = output_filters div bottleneck_factor
         in bnd (Conv2D bottleneck_filters x_in) (\<lambda>x.
            bnd (Conv2D bottleneck_filters x) (\<lambda>x.
            bnd (Conv2D output_filters x) (\<lambda>x.
            bnd (if Some output_filters \<noteq> input_filters then Conv2D output_filters x_in
                 else Inr x_in) (\<lambda>x_in.
            Add x_in x))))))"




definition hourglass_dim :: "dim \<Rightarrow> py_error + dim" where
  "hourglass_dim a1 =
     (let a2 = conv_output_length a1;
          a3 = conv_output_length a2;
          a4 = conv_output_length a3;
          a5 = conv_output_length a4
      in bnd (broadcast_dim a4 (deconv_length a5)) (\<lambda>b4.
         bnd (broadcast_dim a3 (deconv_length b4)) (\<lambda>b3.
         bnd (broadcast_dim a2 (deconv_length b3)) (\<lambda>b2.
         broadcast_dim a1 (deconv_length b2)))))"

definition across_strides :: "dim \<Rightarrow> dim" where
  "across_strides d =
     deconv_length (deconv_length (deconv_length (deconv_length
       (conv_output_length (conv_output_length (conv_output_length (conv_output_length d)))))))"

text \<open>
  Image sizes on which all three builders succeed: height, width and a defined number of
  channels, with height and width unknown or divisible by 16.
\<close>

fun divisible_by_16 :: "dim \<Rightarrow> bool" where
  "divisible_by_16 None = True"
| "divisible_by_16 (Some n) = (n mod 16 = 0)"



section \<open>cells\_kitchen/region\_proposal/train.py\<close>

text \<open>
  The script hands two callbacks to \<open>model.fit_generator\<close>:
  \<open>EarlyStopping(patience=cfg.early_stopping)\<close> and
  \<open>ModelCheckpoint(..., save_best_only=True)\<close>, both monitoring \<open>val_loss\<close> in \<open>min\<close> mode
  with \<open>min_delta = 0\<close>.  The validation loss of each epoch is an input of the model:
  \<open>val_loss e\<close> is the loss measured at the end of epoch \<open>e\<close> (counted from 0) if training
  gets that far.  Losses are real numbers; \<open>None\<close> as a best value stands for the
  initial \<open>np.Inf\<close>.
\<close>

text \<open>
  A checkpoint file \<open>'<model>.{epoch:02d}-{val_loss:.6f}.hdf5'\<close>, identified by the two
  values in its name.
\<close>

record checkpoint =
  ck_epoch :: nat
  ck_val_loss :: real

record fit_state =
  epoch :: nat
  stop_training :: bool
  es_wait :: nat
  es_best :: "real option"
  mc_best :: "real option"
  model_folder :: "checkpoint list"

text \<open>\<open>np.less(current, best)\<close>.\<close>

definition monitor_op :: "real \<Rightarrow> real option \<Rightarrow> bool" where
  "monitor_op current best = (case best of None \<Rightarrow> True | Some b \<Rightarrow> current < b)"

text \<open>
  \<open>EarlyStopping.on_epoch_end\<close>: an improvement resets the wait counter, anything else
  increments it and requests the stop once it has reached the patience.
\<close>

definition EarlyStopping_on_epoch_end :: "nat \<Rightarrow> real \<Rightarrow> fit_state \<Rightarrow> fit_state" where
  "EarlyStopping_on_epoch_end patience current s =
     (if monitor_op current (es_best s)
      then s\<lparr>es_best := Some current, es_wait := 0\<rparr>
      else (let s = s\<lparr>es_wait := es_wait s + 1\<rparr>
            in if es_wait s \<ge> patience then s\<lparr>stop_training := True\<rparr> else s))"

text \<open>
  \<open>ModelCheckpoint.on_epoch_end\<close> with \<open>save_best_only=True\<close> and period 1: an
  improvement writes a new file, named after \<open>epoch + 1\<close> and the loss.
\<close>

definition ModelCheckpoint_on_epoch_end :: "real \<Rightarrow> fit_state \<Rightarrow> fit_state" where
  "ModelCheckpoint_on_epoch_end current s =
     (if monitor_op current (mc_best s)
      then s\<lparr>mc_best := Some current,
             model_folder := model_folder s @ [\<lparr>ck_epoch = epoch s + 1, ck_val_loss = current\<rparr>]\<rparr>
      else s)"

text \<open>
  The epoch loop of \<open>fit_generator\<close>: run an epoch, call the callbacks in the order of
  the list, advance the epoch counter, and leave the loop when a callback has set
  \<open>stop_training\<close>.
\<close>

definition run_epoch :: "nat \<Rightarrow> (nat \<Rightarrow> real) \<Rightarrow> fit_state \<Rightarrow> fit_state" where
  "run_epoch patience val_loss s =
     (let current = val_loss (epoch s);
          s = EarlyStopping_on_epoch_end patience current s;
          s = ModelCheckpoint_on_epoch_end current s
      in s\<lparr>epoch := epoch s + 1\<rparr>)"

function fit_generator :: "nat \<Rightarrow> nat \<Rightarrow> (nat \<Rightarrow> real) \<Rightarrow> fit_state \<Rightarrow> fit_state" where
  "fit_generator epochs patience val_loss s =
     (if epoch s < epochs
      then (let s = run_epoch patience val_loss s
            in if stop_training s then s else fit_generator epochs patience val_loss s)
      else s)"
  by pat_completeness auto
termination
  by (relation "measure (\<lambda>(epochs, patience, val_loss, s). epochs - epoch s)")
     (auto simp: run_epoch_def EarlyStopping_on_epoch_end_def ModelCheckpoint_on_epoch_end_def
        Let_def)

declare fit_generator.simps [simp del]

text \<open>The state in which \<open>fit_generator\<close> starts, with the freshly created model folder.\<close>

definition train_begin :: fit_state where
  "train_begin = \<lparr>epoch = 0, stop_training = False, es_wait = 0, es_best = None,
                   mc_best = None, model_folder = []\<rparr>"

text \<open>
  Lines 60-69.  \<open>glob\<close> lists the \<open>.hdf5\<close> files of the model folder in the order in which
  the operating system enumerates the directory (\<open>glob.glob\<close> does not sort).  All but the
  last listed file are removed and the first file of a second listing is loaded; the
  script ends with IndexError when that listing is empty.  The result is the content of
  the folder after the removal and the checkpoint that was loaded.
\<close>

definition train ::
  "nat \<Rightarrow> nat \<Rightarrow> (nat \<Rightarrow> real) \<Rightarrow> (checkpoint list \<Rightarrow> checkpoint list)
     \<Rightarrow> py_error + (checkpoint list \<times> checkpoint)" where
  "train training_epochs early_stopping val_loss glob =
     (let history = fit_generator training_epochs early_stopping val_loss train_begin;
          folder = model_folder history;
          models_to_delete = butlast (glob folder);
          folder = filter (\<lambda>f. f \<notin> set models_to_delete) folder
      in case glob folder of
           [] \<Rightarrow> Inl IndexError
         | f # fs \<Rightarrow> Inr (folder, f))"

text \<open>
  The words of the early-stopping claim.  The loss of epoch \<open>k\<close> improves when it is
  lower than the loss of every earlier epoch; the loss has failed to improve for \<open>p\<close>
  consecutive epochs at epoch \<open>k\<close> when epoch \<open>k\<close> and the \<open>p\<close> epochs ending with it
  brought no improvement.
\<close>

definition improved :: "(nat \<Rightarrow> real) \<Rightarrow> nat \<Rightarrow> bool" where
  "improved val_loss k = list_all (\<lambda>j. val_loss k < val_loss j) [0..<k]"

definition stalled :: "(nat \<Rightarrow> real) \<Rightarrow> nat \<Rightarrow> nat \<Rightarrow> bool" where
  "stalled val_loss p k =
     (\<not> improved val_loss k \<and> list_all (\<lambda>j. \<not> improved val_loss j) [Suc k - p..<Suc k])"

text \<open>
  Auxiliary functions for the analysis: the lowest loss before epoch \<open>k\<close>, and the number
  of epochs without improvement that immediately precede epoch \<open>k\<close>.
\<close>

primrec best_before :: "(nat \<Rightarrow> real) \<Rightarrow> nat \<Rightarrow> real option" where
  "best_before val_loss 0 = None"
| "best_before val_loss (Suc k) =
     (case best_before val_loss k of
        None \<Rightarrow> Some (val_loss k)
      | Some b \<Rightarrow> Some (min b (val_loss k)))"

primrec waited :: "(nat \<Rightarrow> real) \<Rightarrow> nat \<Rightarrow> nat" where
  "waited val_loss 0 = 0"
| "waited val_loss (Suc k) = (if improved val_loss k then 0 else Suc (waited val_loss k))"

text \<open>Sample runs: a loss curve given by a list (constant after its end), and a
  directory listing in reverse order of creation.\<close>

definition loss_curve :: "real list \<Rightarrow> nat \<Rightarrow> real" where
  "loss_curve xs e = (if e < length xs then xs ! e else last xs)"

definition newest_first :: "checkpoint list \<Rightarrow> checkpoint list" where
  "newest_first folder = rev folder"

section \<open>Sequencing\<close>

lemma bnd_Inr [simp]: "bnd (Inr x) f = f x" by (simp add: bnd_def)
lemma bnd_Inl [simp]: "bnd (Inl e) f = Inl e" by (simp add: bnd_def)

lemma bnd_assoc: "bnd (bnd m f) g = bnd m (\<lambda>x. bnd (f x) g)"
  by (cases m) simp_all



section \<open>Frame sampling\<close>

lemma length_linspace: "length (linspace a b n) = n"
  by (simp add: linspace_def Let_def)

lemma linspace_nth:
  assumes "j < n"
  shows "linspace 0 b n ! j = real j * (b / (real n - 1))"
proof (cases "n > 1")
  case True
  show ?thesis
  proof (cases "j = n - 1")
    case True
    with \<open>n > 1\<close> have "real j = real n - 1" by (simp add: of_nat_diff)
    with \<open>n > 1\<close> True assms show ?thesis
      by (simp add: linspace_def Let_def)
  next
    case False
    with \<open>n > 1\<close> assms show ?thesis
      by (simp add: linspace_def Let_def)
  qed
next
  case False
  with assms have "n = 1" "j = 0" by auto
  then show ?thesis by (simp add: linspace_def)
qed

lemma frame_indices_nth:
  "j < n \<Longrightarrow> frame_indices k n ! j = \<lfloor>real j * ((real k - 1) / (real n - 1))\<rfloor>"
  by (simp add: frame_indices_def length_linspace linspace_nth)

lemma length_frame_indices: "length (frame_indices k n) = n"
  by (simp add: frame_indices_def length_linspace)




lemma frame_indices_range:
  assumes "1 \<le> k" "1 \<le> n" "j < n"
  shows "0 \<le> frame_indices k n ! j \<and> frame_indices k n ! j < int k"
proof -
  define s where "s = (real k - 1) / (real n - 1)"
  have s0: "0 \<le> s" using assms by (simp add: s_def)
  have "real j * s \<le> real k - 1"
  proof (cases "n = 1")
    case True with assms show ?thesis by simp
  next
    case False
    with assms have n1: "0 < real n - 1" by simp
    have "real j \<le> real n - 1" using assms by linarith
    then have "real j * s \<le> (real n - 1) * s" using s0 by (rule mult_right_mono)
    also have "\<dots> = real k - 1" using n1 by (simp add: s_def)
    finally show ?thesis .
  qed
  then have "\<lfloor>real j * s\<rfloor> \<le> int k - 1" by linarith
  moreover have "0 \<le> \<lfloor>real j * s\<rfloor>" using s0 by simp
  ultimately show ?thesis using assms by (simp add: frame_indices_nth s_def)
qed




section \<open>Errors of get\_frames\<close>

lemma np_index_in_range:
  assumes "- int n \<le> i" "i < int n"
  shows "\<exists>j<n. np_index n i = Inr j"
  using assms by (auto simp: np_index_def)

lemma np_index_error: "np_index n i = Inl e \<Longrightarrow> e = IndexError"
  by (auto simp: np_index_def Let_def split: if_splits)

lemma np_take_error: "np_take xs ns = Inl e \<Longrightarrow> e = IndexError"
  by (induction ns) (auto split: sum.splits dest: np_index_error)

lemma np_take_in_range:
  "list_all (\<lambda>i. - int (length xs) \<le> i \<and> i < int (length xs)) ns \<Longrightarrow>
     \<exists>ys. np_take xs ns = Inr ys \<and> length ys = length ns \<and> set ys \<subseteq> set xs"
proof (induction ns)
  case Nil
  then show ?case by simp
next
  case (Cons i ns)
  then obtain ys where ys: "np_take xs ns = Inr ys" "length ys = length ns" "set ys \<subseteq> set xs"
    by auto
  from Cons.prems have r: "- int (length xs) \<le> i" "i < int (length xs)" by simp_all
  then obtain j where j: "j < length xs" "np_index (length xs) i = Inr j"
    using np_index_in_range by blast
  with ys show ?case by simp
qed

lemma get_frames_no_files: "get_frames imread files fn = Inl IOError \<longleftrightarrow> files = []"
proof
  assume a: "get_frames imread files fn = Inl IOError"
  show "files = []"
  proof (rule ccontr)
    assume "files \<noteq> []"
    with a show False
      by (auto simp: get_frames_def split: frame_numbers.splits sum.splits option.splits if_splits
               dest: np_take_error)
  qed
next
  assume "files = []" then show "get_frames imread files fn = Inl IOError"
    by (simp add: get_frames_def)
qed

lemma frame_indices_all_in_range:
  assumes "1 \<le> k"
  shows "list_all (\<lambda>i. - int k \<le> i \<and> i < int k) (frame_indices k n)"
proof (cases "n = 0")
  case True
  then show ?thesis by (simp add: frame_indices_def linspace_def)
next
  case False
  then have n: "1 \<le> n" by simp
  have "\<And>j. j < n \<Longrightarrow> - int k \<le> frame_indices k n ! j \<and> frame_indices k n ! j < int k"
    using frame_indices_range [OF assms n] by force
  then show ?thesis
    by (simp add: list_all_length length_frame_indices)
qed

lemma selection_in_range:
  assumes "files \<noteq> []" "request_in_range (length files) fn"
  shows "\<exists>load_files.
           (case fn of
              AllFrames \<Rightarrow> Inr files
            | FrameList ns \<Rightarrow> np_take files ns
            | FrameCount n \<Rightarrow>
                (if n < 0 then Inl ValueError
                 else np_take files (frame_indices (length files) (nat n)))) = Inr load_files
         \<and> set load_files \<subseteq> set files
         \<and> length load_files =
             (case fn of AllFrames \<Rightarrow> length files | FrameList ns \<Rightarrow> length ns | FrameCount n \<Rightarrow> nat n)"
proof (cases fn)
  case AllFrames
  then show ?thesis by simp
next
  case (FrameList ns)
  with assms np_take_in_range [of files ns] show ?thesis by auto
next
  case (FrameCount n)
  from assms have "1 \<le> length files" by (cases files) auto
  from frame_indices_all_in_range [OF this, of "nat n"]
  have "\<exists>ys. np_take files (frame_indices (length files) (nat n)) = Inr ys
          \<and> length ys = length (frame_indices (length files) (nat n)) \<and> set ys \<subseteq> set files"
    by (rule np_take_in_range)
  with assms FrameCount show ?thesis by (auto simp: length_frame_indices)
qed

text \<open>
  Claim C9 (amended).  \<open>get_frames\<close> raises IOError exactly when the glob for \<open>*.tif\<close>
  is empty.  When at least one file matches and the request is \<open>None\<close>, a non-negative
  count, or a list of indices all within \<open>[-k, k)\<close>, the selection does not raise: the
  function hands a list of matching files (as many as requested) to the reader and returns
  what the reader returns.
\<close>

theorem get_frames_raises_iff_no_tif:
  "(get_frames imread files fn = Inl IOError \<longleftrightarrow> files = [])
   \<and> (files \<noteq> [] \<and> request_in_range (length files) fn \<longrightarrow>
        (\<exists>load_files. set load_files \<subseteq> set files
           \<and> length load_files =
               (case fn of AllFrames \<Rightarrow> length files | FrameList ns \<Rightarrow> length ns
                         | FrameCount n \<Rightarrow> nat n)
           \<and> get_frames imread files fn =
               (case imread load_files of None \<Rightarrow> Inl LibraryError | Some imgs \<Rightarrow> Inr imgs)))"
proof (intro conjI impI)
  show "get_frames imread files fn = Inl IOError \<longleftrightarrow> files = []"
    by (rule get_frames_no_files)
next
  assume a: "files \<noteq> [] \<and> request_in_range (length files) fn"
  then obtain load_files where l:
    "(case fn of
              AllFrames \<Rightarrow> Inr files
            | FrameList ns \<Rightarrow> np_take files ns
            | FrameCount n \<Rightarrow>
                (if n < 0 then Inl ValueError
                 else np_take files (frame_indices (length files) (nat n)))) = Inr load_files"
    "set load_files \<subseteq> set files"
    "length load_files =
             (case fn of AllFrames \<Rightarrow> length files | FrameList ns \<Rightarrow> length ns | FrameCount n \<Rightarrow> nat n)"
    using selection_in_range by blast
  from a l(1) have "get_frames imread files fn =
               (case imread load_files of None \<Rightarrow> Inl LibraryError | Some imgs \<Rightarrow> Inr imgs)"
    by (simp add: get_frames_def)
  with l(2,3) show "\<exists>load_files. set load_files \<subseteq> set files
           \<and> length load_files =
               (case fn of AllFrames \<Rightarrow> length files | FrameList ns \<Rightarrow> length ns
                         | FrameCount n \<Rightarrow> nat n)
           \<and> get_frames imread files fn =
               (case imread load_files of None \<Rightarrow> Inl LibraryError | Some imgs \<Rightarrow> Inr imgs)"
    by blast
qed

text \<open>Three files, two frames requested: the first and the last are read.\<close>

theorem get_frames_raises_iff_no_tif_witness:
  "[''a.tif'', ''b.tif'', ''c.tif''] \<noteq> []
   \<and> request_in_range (length [''a.tif'', ''b.tif'', ''c.tif'']) (FrameCount 2)
   \<and> get_frames read_names [''a.tif'', ''b.tif'', ''c.tif''] (FrameCount 2) \<noteq> Inl IOError
   \<and> get_frames read_names [''a.tif'', ''b.tif'', ''c.tif''] (FrameCount 2)
       = Inr [''a.tif'', ''c.tif'']"
proof -
  have e: "get_frames read_names [''a.tif'', ''b.tif'', ''c.tif''] (FrameCount 2)
             = Inr [''a.tif'', ''c.tif'']"
    by code_simp
  show ?thesis
    using get_frames_raises_iff_no_tif [of read_names "[''a.tif'', ''b.tif'', ''c.tif'']" "FrameCount 2"] e
    by simp
qed

text \<open>
  One matching file and \<open>frame_numbers = [1]\<close>: the fancy index is out of bounds and
  IndexError is raised although a \<open>.tif\<close> file is present.
\<close>

theorem get_frames_index_error_counterexample:
  "[''a.tif''] \<noteq> [] \<and> get_frames read_names [''a.tif''] (FrameList [1]) = Inl IndexError"
  by (simp add: get_frames_def np_index_def)

section \<open>Masks of get\_targets\<close>







































section \<open>Range of enhance\_contrast\<close>

lemma np_percentile_pair:
  assumes "np_percentile a [p0, p1] = Inr limits"
  shows "length limits = 2"
  using assms by (auto simp: np_percentile_def split: if_splits)





section \<open>Frame of get\_correlation\_image\<close>

lemma keeps_sreturn: "Q x \<Longrightarrow> keeps \<sigma>0 (sreturn x) Q"
  by (simp add: keeps_def sreturn_def)

lemma keeps_sbind:
  assumes "keeps \<sigma>0 m P" and "\<And>x. P x \<Longrightarrow> keeps \<sigma>0 (f x) Q"
  shows "keeps \<sigma>0 (sbind m f) Q"
  unfolding keeps_def
proof (intro allI impI)
  fix \<sigma> assume p: "prefix \<sigma>0 \<sigma>"
  obtain r \<sigma>' where m: "m \<sigma> = (r, \<sigma>')" by (cases "m \<sigma>")
  from assms(1) p m have p': "prefix \<sigma>0 \<sigma>'" and r: "\<And>x. r = Inr x \<Longrightarrow> P x"
    by (auto simp: keeps_def)
  show "prefix \<sigma>0 (snd (sbind m f \<sigma>)) \<and> (\<forall>x. fst (sbind m f \<sigma>) = Inr x \<longrightarrow> Q x)"
  proof (cases r)
    case (Inl e)
    with m p' show ?thesis by (simp add: sbind_def)
  next
    case (Inr x)
    with r have "P x" by simp
    from assms(2) [OF this] p' have "prefix \<sigma>0 (snd (f x \<sigma>')) \<and> (\<forall>y. fst (f x \<sigma>') = Inr y \<longrightarrow> Q y)"
      by (simp add: keeps_def)
    with m Inr show ?thesis by (simp add: sbind_def)
  qed
qed

lemma keeps_new: "keeps \<sigma>0 (new e) (\<lambda>a. length \<sigma>0 \<le> a)"
  by (auto simp: keeps_def new_def prefix_length_le split: option.splits)

lemma keeps_copy_array: "keeps \<sigma>0 (copy_array a) (\<lambda>a. length \<sigma>0 \<le> a)"
  by (auto simp: keeps_def copy_array_def prefix_length_le)

lemma prefix_list_update:
  assumes "prefix xs ys" "length xs \<le> a"
  shows "prefix xs (ys[a := v])"
proof -
  from assms(1) obtain zs where "ys = xs @ zs" by (auto simp: prefix_def)
  with assms(2) show ?thesis by (simp add: list_update_append)
qed

lemma keeps_inplace: "length \<sigma>0 \<le> a \<Longrightarrow> keeps \<sigma>0 (inplace a e) (\<lambda>_. True)"
  by (auto simp: keeps_def inplace_def prefix_list_update split: option.splits)

lemma keeps_get_correlation_image: "keeps \<sigma>0 (get_correlation_image lib imgs) (\<lambda>_. True)"
  unfolding get_correlation_image_def
  by (rule keeps_sbind [OF keeps_copy_array] keeps_sbind [OF keeps_new]
        keeps_sbind [OF keeps_inplace] keeps_sreturn TrueI | assumption)+

text \<open>
  Claim C10.  \<open>get_correlation_image\<close> never modifies its input array: whatever the
  library routines compute and whether the call returns or raises, every array that
  existed before the call, the argument among them, has the same contents after it.  All
  in-place operations act on arrays created during the call.
\<close>

theorem get_correlation_image_keeps_input:
  "take (length \<sigma>) (snd (get_correlation_image lib imgs \<sigma>)) = \<sigma>"
proof -
  have "prefix \<sigma> (snd (get_correlation_image lib imgs \<sigma>))"
    using keeps_get_correlation_image [of \<sigma> lib imgs] by (simp add: keeps_def)
  then show ?thesis by (auto simp: prefix_def)
qed

section \<open>Shapes in the model builders\<close>

lemma Conv2D_shape [simp]: "Conv2D n [h, w, Some c] = Inr [h, w, Some n]"
  by (simp add: Conv2D_def)

lemma Conv2DTranspose_shape [simp]:
  "Conv2DTranspose n [h, w, Some c] = Inr [deconv_length h, deconv_length w, Some n]"
  by (simp add: Conv2DTranspose_def)

lemma MaxPooling2D_shape [simp]:
  "MaxPooling2D [h, w, c] = Inr [conv_output_length h, conv_output_length w, c]"
  by (simp add: MaxPooling2D_def)

lemma UpSampling2D_shape [simp]:
  "UpSampling2D [h, w, c] = Inr [deconv_length h, deconv_length w, c]"
  by (simp add: UpSampling2D_def)

lemma rank3: "length (x::shape) = 3 \<Longrightarrow> \<exists>h w c. x = [h, w, c]"
  by (auto simp: length_Suc_conv numeral_3_eq_3)


lemma Conv2DTranspose_InrD:
  assumes "Conv2DTranspose n x = Inr y"
  shows "\<exists>h w c. x = [h, w, Some c] \<and> y = [deconv_length h, deconv_length w, Some n]"
proof -
  from assms have "length x = 3"
    by (simp add: Conv2DTranspose_def split: if_splits)
  then obtain h w c where x: "x = [h, w, c]" using rank3 by blast
  with assms show ?thesis
    by (cases c) (simp_all add: Conv2DTranspose_def)
qed

lemma broadcast_dim_same [simp]: "broadcast_dim d d = Inr d"
  by (cases d) simp_all

lemma broadcast_dim_error: "broadcast_dim a b = Inl e \<Longrightarrow> e = ValueError"
  by (cases a; cases b) (auto split: if_splits)

lemma Add_shape:
  "Add [h1, w1, c1] [h2, w2, c2] =
     bnd (broadcast_dim h1 h2) (\<lambda>h. bnd (broadcast_dim w1 w2) (\<lambda>w.
     bnd (broadcast_dim c1 c2) (\<lambda>c. Inr [h, w, c])))"
  by (simp add: Add_def compute_elemwise_op_output_shape_def bnd_assoc)

lemma Add_same [simp]: "Add [h, w, c] [h, w, c] = Inr [h, w, c]"
  by (simp add: Add_shape)

lemma residual_bottleneck_module_shape [simp]:
  "residual_bottleneck_module [h, w, Some c] n b = Inr [h, w, Some n]"
  by (simp add: residual_bottleneck_module_def)








lemma hourglass_dim_None [simp]: "hourglass_dim None = Inr None"
  by (simp add: hourglass_dim_def)

lemma across_strides_None [simp]: "across_strides None = None"
  by (simp add: across_strides_def)



lemma conv_output_length_even: "conv_output_length (Some (2 * k)) = Some k"
  by simp

lemma hourglass_dim_16: "hourglass_dim (Some (16 * m)) = Inr (Some (16 * m))"
proof -
  have a2: "conv_output_length (Some (16 * m)) = Some (8 * m)"
    using conv_output_length_even [of "8 * m"] by simp
  have a3: "conv_output_length (Some (8 * m)) = Some (4 * m)"
    using conv_output_length_even [of "4 * m"] by simp
  have a4: "conv_output_length (Some (4 * m)) = Some (2 * m)"
    using conv_output_length_even [of "2 * m"] by simp
  have a5: "conv_output_length (Some (2 * m)) = Some m"
    by (rule conv_output_length_even)
  have b: "deconv_length (Some m) = Some (2 * m)" "deconv_length (Some (2 * m)) = Some (4 * m)"
    "deconv_length (Some (4 * m)) = Some (8 * m)" "deconv_length (Some (8 * m)) = Some (16 * m)"
    by simp_all
  show ?thesis
    unfolding hourglass_dim_def Let_def a2 a3 a4 a5 b
    by (simp only: b broadcast_dim_same bnd_Inr)
qed

lemma across_strides_16: "across_strides (Some (16 * m)) = Some (16 * m)"
proof -
  have a2: "conv_output_length (Some (16 * m)) = Some (8 * m)"
    using conv_output_length_even [of "8 * m"] by simp
  have a3: "conv_output_length (Some (8 * m)) = Some (4 * m)"
    using conv_output_length_even [of "4 * m"] by simp
  have a4: "conv_output_length (Some (4 * m)) = Some (2 * m)"
    using conv_output_length_even [of "2 * m"] by simp
  have a5: "conv_output_length (Some (2 * m)) = Some m"
    by (rule conv_output_length_even)
  show ?thesis
    unfolding across_strides_def a2 a3 a4 a5 by simp
qed

lemma divisible_by_16E:
  assumes "divisible_by_16 d"
  obtains "d = None" | m where "d = Some (16 * m)"
proof (cases d)
  case None
  then show ?thesis using that by simp
next
  case (Some n)
  with assms have "n mod 16 = 0" by simp
  then have "n = 16 * (n div 16)" by presburger
  with Some that show ?thesis by blast
qed

lemma hourglass_dim_divisible: "divisible_by_16 d \<Longrightarrow> hourglass_dim d = Inr d"
  by (erule divisible_by_16E) (simp_all add: hourglass_dim_16)

lemma across_strides_form: "\<exists>m. across_strides (Some n) = Some (16 * m)"
  by (simp add: across_strides_def)

lemma divisible_across_strides [simp]: "divisible_by_16 (across_strides d)"
proof (cases d)
  case None
  then show ?thesis by simp
next
  case (Some n)
  obtain m where "across_strides (Some n) = Some (16 * m)"
    using across_strides_form by blast
  with Some show ?thesis by simp
qed

lemma across_strides_divisible: "divisible_by_16 d \<Longrightarrow> across_strides d = d"
  by (erule divisible_by_16E) (simp_all add: across_strides_16)




lemma upsampling_step_shape [simp]:
  "(if up then UpSampling2D [h, w, Some f] else Conv2DTranspose f [h, w, Some f])
     = Inr [deconv_length h, deconv_length w, Some f]"
  by simp







lemma across_strides_idem [simp]: "across_strides (across_strides d) = across_strides d"
  by (rule across_strides_divisible) simp











section \<open>Early stopping and checkpoint retention\<close>

lemma improved_iff: "improved vl k \<longleftrightarrow> (\<forall>j<k. vl k < vl j)"
  by (auto simp: improved_def list_all_iff)

lemma improved_0 [simp]: "improved vl 0"
  by (simp add: improved_def)

lemma best_before_None [simp]: "best_before vl k = None \<longleftrightarrow> k = 0"
  by (cases k) (auto split: option.splits)

lemma best_before_Some:
  "best_before vl k = Some b \<Longrightarrow> x < b \<longleftrightarrow> (\<forall>j<k. x < vl j)"
proof (induction k arbitrary: b)
  case 0
  then show ?case by simp
next
  case (Suc k)
  show ?case
  proof (cases "best_before vl k")
    case None
    then have "k = 0" by simp
    with Suc.prems show ?thesis by simp
  next
    case (Some c)
    with Suc.prems have b: "b = min c (vl k)" by simp
    from Suc.IH [OF Some] have "x < c \<longleftrightarrow> (\<forall>j<k. x < vl j)" .
    with b show ?thesis by (auto simp: less_Suc_eq)
  qed
qed

lemma monitor_op_best_before: "monitor_op (vl k) (best_before vl k) \<longleftrightarrow> improved vl k"
proof (cases "best_before vl k")
  case None
  then show ?thesis by (simp add: monitor_op_def)
next
  case (Some b)
  then show ?thesis
    by (simp add: monitor_op_def improved_iff best_before_Some)
qed

lemma best_before_Suc:
  "best_before vl (Suc k) = (if improved vl k then Some (vl k) else best_before vl k)"
proof (cases "best_before vl k")
  case None
  then show ?thesis by simp
next
  case (Some b)
  have "improved vl k \<longleftrightarrow> vl k < b"
    using monitor_op_best_before [of vl k] Some by (simp add: monitor_op_def)
  with Some show ?thesis by (auto simp: min_def)
qed

lemma waited_ge:
  "m \<le> waited vl k \<longleftrightarrow> m \<le> k \<and> (\<forall>j. k - m \<le> j \<and> j < k \<longrightarrow> \<not> improved vl j)"
proof (induction k arbitrary: m)
  case 0
  then show ?case by simp
next
  case (Suc k)
  show ?case
  proof (cases m)
    case 0
    then show ?thesis by auto
  next
    case (Suc m')
    show ?thesis
    proof (cases "improved vl k")
      case True
      have "k - m' \<le> k \<and> k < Suc k" by simp
      with True have "\<not> (\<forall>j. k - m' \<le> j \<and> j < Suc k \<longrightarrow> \<not> improved vl j)" by blast
      with True Suc show ?thesis by simp
    next
      case False
      have "(\<forall>j. k - m' \<le> j \<and> j < Suc k \<longrightarrow> \<not> improved vl j)
              \<longleftrightarrow> (\<forall>j. k - m' \<le> j \<and> j < k \<longrightarrow> \<not> improved vl j)"
        using False by (auto simp: less_Suc_eq)
      with False Suc Suc.IH [of m'] show ?thesis by simp
    qed
  qed
qed

lemma stalled_iff: "stalled vl p k \<longleftrightarrow> \<not> improved vl k \<and> p \<le> waited vl (Suc k)"
proof -
  have "list_all (\<lambda>j. \<not> improved vl j) [Suc k - p..<Suc k]
          \<longleftrightarrow> (\<forall>j. Suc k - p \<le> j \<and> j < Suc k \<longrightarrow> \<not> improved vl j)"
    by (auto simp: list_all_iff)
  moreover have "(\<forall>j. Suc k - p \<le> j \<and> j < Suc k \<longrightarrow> \<not> improved vl j) \<Longrightarrow> p \<le> Suc k"
  proof (rule ccontr)
    assume a: "\<forall>j. Suc k - p \<le> j \<and> j < Suc k \<longrightarrow> \<not> improved vl j" and "\<not> p \<le> Suc k"
    then have "Suc k - p = 0" by simp
    with a [rule_format, of 0] have "\<not> improved vl 0" by simp
    then show False by simp
  qed
  ultimately show ?thesis
    unfolding stalled_def waited_ge [of p vl "Suc k"] by blast
qed

lemma run_epoch_epoch [simp]: "epoch (run_epoch p vl s) = Suc (epoch s)"
  by (simp add: run_epoch_def EarlyStopping_on_epoch_end_def ModelCheckpoint_on_epoch_end_def
        Let_def)

lemma run_epoch_tracking:
  assumes "es_best s = best_before vl (epoch s)" "es_wait s = waited vl (epoch s)"
    "\<not> stop_training s"
  shows "es_best (run_epoch p vl s) = best_before vl (Suc (epoch s))"
    and "es_wait (run_epoch p vl s) = waited vl (Suc (epoch s))"
    and "stop_training (run_epoch p vl s) \<longleftrightarrow> stalled vl p (epoch s)"
  using assms
  by (auto simp: run_epoch_def EarlyStopping_on_epoch_end_def ModelCheckpoint_on_epoch_end_def
        Let_def monitor_op_best_before best_before_Suc stalled_iff
      simp del: best_before.simps(2))

lemma fit_generator_epochs:
  assumes "es_best s = best_before vl (epoch s)" "es_wait s = waited vl (epoch s)"
    "\<not> stop_training s" "epoch s \<le> E"
  shows "epoch s \<le> epoch (fit_generator E p vl s)
       \<and> epoch (fit_generator E p vl s) \<le> E
       \<and> (\<forall>k. epoch s \<le> k \<and> Suc k < epoch (fit_generator E p vl s) \<longrightarrow> \<not> stalled vl p k)
       \<and> (epoch (fit_generator E p vl s) < E \<longrightarrow>
            epoch s < epoch (fit_generator E p vl s)
          \<and> stalled vl p (epoch (fit_generator E p vl s) - 1))"
  using assms
proof (induction E p vl s rule: fit_generator.induct)
  case (1 E p vl s)
  show ?case
  proof (cases "epoch s < E")
    case False
    then have "fit_generator E p vl s = s" by (subst fit_generator.simps) simp
    with False "1.prems" show ?thesis by auto
  next
    case True
    define s' where "s' = run_epoch p vl s"
    note t = run_epoch_tracking [OF "1.prems"(1-3), of p, folded s'_def]
    have e: "epoch s' = Suc (epoch s)" by (simp add: s'_def)
    show ?thesis
    proof (cases "stop_training s'")
      case True
      with \<open>epoch s < E\<close> have r: "fit_generator E p vl s = s'"
        by (subst fit_generator.simps) (simp add: s'_def Let_def)
      from True t(3) have "stalled vl p (epoch s)" by simp
      with r e \<open>epoch s < E\<close> show ?thesis by auto
    next
      case False
      with \<open>epoch s < E\<close> have r: "fit_generator E p vl s = fit_generator E p vl s'"
        by (subst fit_generator.simps) (simp add: s'_def Let_def)
      from False t(3) have ns: "\<not> stalled vl p (epoch s)" by simp
      have ih: "epoch s' \<le> epoch (fit_generator E p vl s')
       \<and> epoch (fit_generator E p vl s') \<le> E
       \<and> (\<forall>k. epoch s' \<le> k \<and> Suc k < epoch (fit_generator E p vl s') \<longrightarrow> \<not> stalled vl p k)
       \<and> (epoch (fit_generator E p vl s') < E \<longrightarrow>
            epoch s' < epoch (fit_generator E p vl s')
          \<and> stalled vl p (epoch (fit_generator E p vl s') - 1))"
        using "1.IH" [OF \<open>epoch s < E\<close> s'_def False] t(1,2) False e \<open>epoch s < E\<close>
        by simp
      have "\<forall>k. epoch s \<le> k \<and> Suc k < epoch (fit_generator E p vl s') \<longrightarrow> \<not> stalled vl p k"
      proof (intro allI impI)
        fix k assume k: "epoch s \<le> k \<and> Suc k < epoch (fit_generator E p vl s')"
        show "\<not> stalled vl p k"
        proof (cases "k = epoch s")
          case True
          with ns show ?thesis by simp
        next
          case False
          with k e have "epoch s' \<le> k" by simp
          with k ih show ?thesis by blast
        qed
      qed
      with ih e show ?thesis unfolding r by auto
    qed
  qed
qed

text \<open>
  Claim C7.  The fit loop launched by the script runs at most \<open>cfg.training_epochs\<close>
  epochs; once the validation loss has failed to improve for \<open>cfg.early_stopping\<close>
  consecutive epochs, the epoch at which that happens is the last one that is run; and
  when the loop ends before \<open>cfg.training_epochs\<close>, it is because the loss had failed to
  improve for that many consecutive epochs at its last epoch.
\<close>

theorem early_stopping_halts:
  "epoch (fit_generator training_epochs early_stopping val_loss train_begin) \<le> training_epochs
   \<and> (\<forall>k. k < epoch (fit_generator training_epochs early_stopping val_loss train_begin)
          \<and> stalled val_loss early_stopping k \<longrightarrow>
        epoch (fit_generator training_epochs early_stopping val_loss train_begin) = Suc k)
   \<and> (epoch (fit_generator training_epochs early_stopping val_loss train_begin) < training_epochs
        \<longrightarrow> stalled val_loss early_stopping
              (epoch (fit_generator training_epochs early_stopping val_loss train_begin) - 1))"
proof -
  define n where "n = epoch (fit_generator training_epochs early_stopping val_loss train_begin)"
  have "epoch train_begin \<le> n \<and> n \<le> training_epochs
       \<and> (\<forall>k. epoch train_begin \<le> k \<and> Suc k < n \<longrightarrow> \<not> stalled val_loss early_stopping k)
       \<and> (n < training_epochs \<longrightarrow> epoch train_begin < n \<and> stalled val_loss early_stopping (n - 1))"
    unfolding n_def by (rule fit_generator_epochs) (simp_all add: train_begin_def)
  then have a: "n \<le> training_epochs"
    and b: "\<forall>k. Suc k < n \<longrightarrow> \<not> stalled val_loss early_stopping k"
    and c: "n < training_epochs \<longrightarrow> stalled val_loss early_stopping (n - 1)"
    by (simp_all add: train_begin_def)
  have "\<forall>k. k < n \<and> stalled val_loss early_stopping k \<longrightarrow> n = Suc k"
  proof (intro allI impI)
    fix k assume k: "k < n \<and> stalled val_loss early_stopping k"
    with b have "\<not> Suc k < n" by blast
    with k show "n = Suc k" by simp
  qed
  with a c show ?thesis unfolding n_def by blast
qed


text \<open>
  Patience 2 and losses 0.5, 0.4, 0.45, 0.41, 0.3: epochs 2 and 3 (counted from 0) bring no
  improvement, so training ends after four epochs and never sees the loss 0.3.
\<close>

theorem early_stopping_halts_witness:
  "3 < epoch (fit_generator 10 2 (loss_curve [5/10, 4/10, 45/100, 41/100, 3/10]) train_begin)
   \<and> stalled (loss_curve [5/10, 4/10, 45/100, 41/100, 3/10]) 2 3
   \<and> epoch (fit_generator 10 2 (loss_curve [5/10, 4/10, 45/100, 41/100, 3/10]) train_begin) = 4"
proof -
  have e: "epoch (fit_generator 10 2 (loss_curve [5/10, 4/10, 45/100, 41/100, 3/10]) train_begin) = 4"
    by code_simp
  have s: "stalled (loss_curve [5/10, 4/10, 45/100, 41/100, 3/10]) 2 3"
    by code_simp
  show ?thesis
    using early_stopping_halts [of 10 2 "loss_curve [5/10, 4/10, 45/100, 41/100, 3/10]"] e s
    by simp
qed

text \<open>
  Claim C6.  After the script completes, the one \<open>.hdf5\<close> file left in the model folder
  should be the checkpoint with the lowest validation loss.  The script keeps the file
  that \<open>glob\<close> lists last: with two epochs of losses 0.5 and 0.4 both checkpoints are
  saved, and when the directory is enumerated newest file first, the checkpoint of
  epoch 2 (loss 0.4) is removed and the one of epoch 1 (loss 0.5) is kept and loaded.
\<close>

theorem train_keeps_last_listed_checkpoint:
  "model_folder (fit_generator 2 10 (loss_curve [5/10, 4/10]) train_begin)
     = [\<lparr>ck_epoch = 1, ck_val_loss = 5/10\<rparr>, \<lparr>ck_epoch = 2, ck_val_loss = 4/10\<rparr>]
   \<and> train 2 10 (loss_curve [5/10, 4/10]) newest_first
     = Inr ([\<lparr>ck_epoch = 1, ck_val_loss = 5/10\<rparr>], \<lparr>ck_epoch = 1, ck_val_loss = 5/10\<rparr>)"
proof -
  have f: "model_folder (fit_generator 2 10 (loss_curve [5/10, 4/10]) train_begin)
     = [\<lparr>ck_epoch = 1, ck_val_loss = 5/10\<rparr>, \<lparr>ck_epoch = 2, ck_val_loss = 4/10\<rparr>]"
    by code_simp
  show ?thesis
    unfolding train_def Let_def f by (simp add: newest_first_def)
qed

end
